theory Spec2Isabelle
  imports Main "HOL-Library.Sublist"
begin

section \<open>The editor component of the blog tool\<close>

text \<open>
  The development embeds \<^verbatim>\<open>src/components/editor/index.tsx\<close>: the React component
  \<^verbatim>\<open>Editor\<close> with its state hooks, its effects and its event handlers.

  A JavaScript string is a \<open>string\<close>; one \<open>char\<close> stands for one UTF-16 code unit, so
  \<open>length\<close> is \<^verbatim>\<open>.length\<close> and \<open>drop n\<close> is \<^verbatim>\<open>.slice(n)\<close> for \<open>n \<ge> 0\<close>. The
  component is single threaded: every handler and every effect runs to its end, so each
  one is a function from the state before to the state after. Calls to the collaborators
  (persistence, the completion hook, analytics, notifications) are appended to a log.

  What lies outside the file is not invented. The completion hook is seen through the
  values it returns at a render and the calls it receives; the debounce timer through the
  moment it runs out; the document engine through a document of flat text. A handler
  reads the state of the latest render, and an update that the engine reports after a
  command of the component is an event of its own.
\<close>

subsection \<open>JavaScript arrays of slides\<close>

text \<open>
  A slot of a JavaScript array holds a string, holds \<^verbatim>\<open>undefined\<close>, or is an empty
  slot (a hole), which an assignment past the end of the array leaves behind.
\<close>

datatype jsval = Hole | Undefined | Str string

text \<open>\<^verbatim>\<open>a.slice()\<close>: a copy with the same slots, holes included.\<close>

definition js_slice :: "jsval list \<Rightarrow> jsval list" where
  "js_slice a = a"

text \<open>\<^verbatim>\<open>[...a]\<close>: the iterator reads a hole as \<^verbatim>\<open>undefined\<close>.\<close>

definition js_spread :: "jsval list \<Rightarrow> jsval list" where
  "js_spread a = map (\<lambda>x. if x = Hole then Undefined else x) a"

text \<open>
  \<^verbatim>\<open>a[index] = value\<close> for an integral \<^verbatim>\<open>index\<close>. An array index is an integer from
  \<open>0\<close> to \<open>2^32 - 2\<close>; any other number names an ordinary property, and the slots of
  the array stay as they are. An index at or past the length extends the array, with
  holes between the old end and the new slot.
\<close>

definition js_set_index :: "jsval list \<Rightarrow> int \<Rightarrow> jsval \<Rightarrow> jsval list" where
  "js_set_index a i v =
     (if i < 0 \<or> 2 ^ 32 - 1 \<le> i then a
      else if nat i < length a then a[nat i := v]
      else a @ replicate (nat i - length a) Hole @ [v])"

text \<open>
  \<^verbatim>\<open>a.splice(start, deleteCount)\<close> for integral arguments, as the array is afterwards:
  a negative \<^verbatim>\<open>start\<close> counts from the end and is clamped at \<open>0\<close>, a \<^verbatim>\<open>start\<close> past
  the end is clamped at the length, and the count is clamped to what is left.
\<close>

definition js_splice :: "jsval list \<Rightarrow> int \<Rightarrow> int \<Rightarrow> jsval list" where
  "js_splice a start deleteCount =
     (let len = int (length a);
          actualStart = (if start < 0 then max (len + start) 0 else min start len);
          actualDeleteCount = min (max deleteCount 0) (len - actualStart)
      in take (nat actualStart) a @ drop (nat (actualStart + actualDeleteCount)) a)"

subsection \<open>\<^verbatim>\<open>JSON.stringify\<close> on an array of strings\<close>

definition hex_digit :: "nat \<Rightarrow> char" where
  "hex_digit n = ''0123456789abcdef'' ! (n mod 16)"

text \<open>The escape of one code unit inside a JSON string literal.\<close>

definition quote_unit :: "char \<Rightarrow> string" where
  "quote_unit c =
     (if c = CHR 0x08 then [CHR 0x5C, CHR ''b'']
      else if c = CHR 0x09 then [CHR 0x5C, CHR ''t'']
      else if c = CHR 0x0A then [CHR 0x5C, CHR ''n'']
      else if c = CHR 0x0C then [CHR 0x5C, CHR ''f'']
      else if c = CHR 0x0D then [CHR 0x5C, CHR ''r'']
      else if c = CHR 0x22 then [CHR 0x5C, CHR 0x22]
      else if c = CHR 0x5C then [CHR 0x5C, CHR 0x5C]
      else if (of_char c :: nat) < 32
        then [CHR 0x5C, CHR ''u'', CHR ''0'', CHR ''0'',
              hex_digit ((of_char c :: nat) div 16), hex_digit (of_char c)]
      else [c])"

definition quote_json_string :: "string \<Rightarrow> string" where
  "quote_json_string s = CHR 0x22 # concat (map quote_unit s) @ [CHR 0x22]"

text \<open>An element that is not a string (\<^verbatim>\<open>undefined\<close>, a hole) is written \<^verbatim>\<open>null\<close>.\<close>

definition serialize_element :: "jsval \<Rightarrow> string" where
  "serialize_element v = (case v of Str s \<Rightarrow> quote_json_string s | _ \<Rightarrow> ''null'')"

fun join_comma :: "string list \<Rightarrow> string" where
  "join_comma [] = []"
| "join_comma [x] = x"
| "join_comma (x # y # ys) = x @ '','' @ join_comma (y # ys)"

definition JSON_stringify :: "jsval list \<Rightarrow> string" where
  "JSON_stringify a = ''['' @ join_comma (map serialize_element a) @ '']''"

subsection \<open>The post record\<close>

text \<open>
  The fields of the database record \<^verbatim>\<open>Post\<close> that the component reads. The text
  fields are nullable; \<open>None\<close> is \<^verbatim>\<open>null\<close>. The draft (\<^verbatim>\<open>data\<close>) has the same type.
\<close>

record Post =
  post_id :: string
  title :: "string option"
  description :: "string option"
  content :: "string option"
  slides :: "string option"
  published :: bool

text \<open>A value is truthy when it is neither \<^verbatim>\<open>null\<close> nor the empty string.\<close>

definition truthy :: "string option \<Rightarrow> bool" where
  "truthy v = (case v of None \<Rightarrow> False | Some x \<Rightarrow> x \<noteq> [])"

text \<open>A nullable string inside a template literal: \<^verbatim>\<open>null\<close> prints as \<^verbatim>\<open>null\<close>.\<close>

definition template :: "string option \<Rightarrow> string" where
  "template v = (case v of None \<Rightarrow> ''null'' | Some x \<Rightarrow> x)"

text \<open>
  The prompt of both calls of \<^verbatim>\<open>complete\<close>:
  \<^verbatim>\<open>`Title: ${data.title}\n Description: ${data.description}\n\n ${text}`\<close>.
\<close>

definition prompt :: "Post \<Rightarrow> string \<Rightarrow> string" where
  "prompt d txt =
     ''Title: '' @ template (title d) @ [CHR 0x0A] @ '' Description: ''
       @ template (description d) @ [CHR 0x0A, CHR 0x0A] @ '' '' @ txt"

subsection \<open>The document engine\<close>

text \<open>
  The rich-text engine is a collaborator outside the repository. Its document is taken
  as flat text with a selection; a position is an offset into the text, and the selection
  runs from \<open>sel_from\<close> to \<open>sel_to\<close> (equal for a cursor). The commands below are the
  ones the component issues.
\<close>

record document =
  doc_text :: string
  sel_from :: nat
  sel_to :: nat

text \<open>
  \<^verbatim>\<open>doc.textBetween(from, to, "\n")\<close>: the text between two positions, cut at the start
  of the document. Flat text has no blocks, so the separator never appears.
\<close>

definition textBetween :: "document \<Rightarrow> int \<Rightarrow> int \<Rightarrow> string" where
  "textBetween d from_pos to_pos =
     take (nat to_pos - nat from_pos) (drop (nat from_pos) (doc_text d))"

definition getText :: "document \<Rightarrow> string" where
  "getText d = doc_text d"

text \<open>Where a position lands once the range from \<open>f\<close> to \<open>t\<close> is gone.\<close>

definition map_pos :: "nat \<Rightarrow> nat \<Rightarrow> nat \<Rightarrow> nat" where
  "map_pos f t p = (if p \<le> f then p else if t \<le> p then p - (t - f) else f)"

text \<open>
  \<^verbatim>\<open>commands.deleteRange({from, to})\<close>. A position outside the document makes the
  engine throw a \<^verbatim>\<open>RangeError\<close>: the result \<open>None\<close>.
\<close>

definition deleteRange :: "int \<Rightarrow> int \<Rightarrow> document \<Rightarrow> document option" where
  "deleteRange from_pos to_pos d =
     (if from_pos < 0 \<or> to_pos < from_pos \<or> int (length (doc_text d)) < to_pos then None
      else Some \<lparr>doc_text = take (nat from_pos) (doc_text d) @ drop (nat to_pos) (doc_text d),
                 sel_from = map_pos (nat from_pos) (nat to_pos) (sel_from d),
                 sel_to = map_pos (nat from_pos) (nat to_pos) (sel_to d)\<rparr>)"

text \<open>
  \<^verbatim>\<open>commands.insertContent(value)\<close>: the value replaces the selection and the cursor
  goes behind it; empty content changes nothing.
\<close>

definition insertContent :: "string \<Rightarrow> document \<Rightarrow> document" where
  "insertContent v d =
     (if v = [] then d
      else \<lparr>doc_text = take (sel_from d) (doc_text d) @ v @ drop (sel_to d) (doc_text d),
            sel_from = sel_from d + length v,
            sel_to = sel_from d + length v\<rparr>)"

text \<open>\<^verbatim>\<open>commands.setTextSelection({from, to})\<close>: both ends are clamped to the document.\<close>

definition clamp_pos :: "document \<Rightarrow> int \<Rightarrow> nat" where
  "clamp_pos d p = nat (min (max p 0) (int (length (doc_text d))))"

definition setTextSelection :: "int \<Rightarrow> int \<Rightarrow> document \<Rightarrow> document" where
  "setTextSelection from_pos to_pos d =
     d\<lparr>sel_from := clamp_pos d from_pos, sel_to := clamp_pos d to_pos\<rparr>"

text \<open>\<^verbatim>\<open>commands.setContent(value)\<close>: the whole document is replaced.\<close>

definition setContent :: "string \<Rightarrow> document \<Rightarrow> document" where
  "setContent v d = \<lparr>doc_text = v, sel_from = length v, sel_to = length v\<rparr>"

subsection \<open>The state of the component\<close>

text \<open>
  Calls that leave the component, in the order they are made: the persistence actions
  \<^verbatim>\<open>updatePost\<close> and \<^verbatim>\<open>updatePostMetadata\<close>, \<^verbatim>\<open>complete\<close> and \<^verbatim>\<open>stop\<close> of the completion
  hook, analytics, notifications, and the two methods of a DOM event.
\<close>

datatype call =
    UpdatePost Post
  | UpdatePostMetadata string string string
  | Complete string
  | Stop
  | Track string
  | ToastError string
  | ToastSuccess string
  | PreventDefault
  | StopPropagation

type_synonym addr = nat

text \<open>
  One field for each hook of the component. \<^verbatim>\<open>slides\<close> holds a reference to an array:
  \<open>slides_ref\<close> is the address and \<open>arrays\<close> the store, with \<open>next_addr\<close> the next
  free address. \<open>debounce_pending\<close> says that the timer of \<^verbatim>\<open>useDebounce\<close> runs.
  \<open>completion\<close> and \<open>isLoading\<close> are what \<^verbatim>\<open>useCompletion\<close> returned at the last
  render, \<open>prev\<close> is \<^verbatim>\<open>prev.current\<close>. \<open>save_listener\<close> and \<open>cancel_listeners\<close> say
  whether the \<^verbatim>\<open>keydown\<close> listener of the save shortcut, and the \<^verbatim>\<open>keydown\<close> and
  \<^verbatim>\<open>mousedown\<close> listeners of the cancellation, are attached.
\<close>

record editor_state =
  post :: Post
  data :: Post
  debouncedData :: Post
  debounce_pending :: bool
  hydrated :: bool
  slides_ref :: addr
  arrays :: "addr \<Rightarrow> jsval list"
  next_addr :: addr
  editor :: "document option"
  completion :: string
  isLoading :: bool
  prev :: string
  save_listener :: bool
  cancel_listeners :: bool
  calls :: "call list"

record keyboard_event =
  key :: string
  metaKey :: bool

text \<open>
  \<^verbatim>\<open>setData\<close> with a new object: the draft changes and the timer of \<^verbatim>\<open>useDebounce\<close>
  starts again.
\<close>

definition setData :: "Post \<Rightarrow> editor_state \<Rightarrow> editor_state" where
  "setData d s = s\<lparr>data := d, debounce_pending := True\<rparr>"

subsection \<open>Autosave and the save shortcut\<close>

text \<open>
  The effect on \<^verbatim>\<open>[debouncedData, post]\<close>: nothing when title, description, content
  and slides of the debounced draft are those of the post, otherwise \<^verbatim>\<open>updatePost\<close>
  with the debounced draft.
\<close>

definition autosave_effect :: "editor_state \<Rightarrow> editor_state" where
  "autosave_effect s =
     (if title (debouncedData s) = title (post s) \<and>
         description (debouncedData s) = description (post s) \<and>
         content (debouncedData s) = content (post s) \<and>
         slides (debouncedData s) = slides (post s)
      then s
      else s\<lparr>calls := calls s @ [UpdatePost (debouncedData s)]\<rparr>)"

text \<open>
  The timer of \<^verbatim>\<open>useDebounce(data, 1000)\<close> runs out: the debounced draft becomes the
  draft, and the effect above runs. Without a running timer nothing happens.
\<close>

definition debounce_elapsed :: "editor_state \<Rightarrow> editor_state" where
  "debounce_elapsed s =
     (if debounce_pending s
      then autosave_effect (s\<lparr>debouncedData := data s, debounce_pending := False\<rparr>)
      else s)"

text \<open>The \<^verbatim>\<open>keydown\<close> listener of the save shortcut.\<close>

definition save_onKeyDown :: "keyboard_event \<Rightarrow> editor_state \<Rightarrow> editor_state" where
  "save_onKeyDown e s =
     (if metaKey e \<and> key e = ''s''
      then s\<lparr>calls := calls s @ [PreventDefault, UpdatePost (data s)]\<rparr>
      else s)"

subsection \<open>The completion trigger, streaming and cancellation\<close>

text \<open>
  \<^verbatim>\<open>onUpdate\<close> of the editor, with \<^verbatim>\<open>storage.markdown.getMarkdown\<close> of the engine as
  a parameter. It runs on the document the engine holds; without an editor there is no
  update.
\<close>

definition onUpdate :: "(document \<Rightarrow> string) \<Rightarrow> editor_state \<Rightarrow> editor_state option" where
  "onUpdate getMarkdown s =
     (case editor s of
        None \<Rightarrow> Some s
      | Some d \<Rightarrow>
          (let from_pos = int (sel_from d);
               lastTwo = textBetween d (from_pos - 2) from_pos
           in if lastTwo = ''++'' \<and> \<not> isLoading s
              then (case deleteRange (from_pos - 2) from_pos d of
                      None \<Rightarrow> None
                    | Some d' \<Rightarrow>
                        Some (s\<lparr>editor := Some d',
                                calls := calls s @
                                  [Complete (prompt (data s) (getText d')),
                                   Track ''Autocomplete Shortcut Used'']\<rparr>))
              else Some (setData ((data s)\<lparr>content := Some (getMarkdown d)\<rparr>) s)))"

text \<open>
  The effect on \<^verbatim>\<open>[isLoading, editor, completion]\<close> that inserts the chunks:
  \<^verbatim>\<open>diff = completion.slice(prev.current.length); prev.current = completion;
  editor?.commands.insertContent(diff)\<close>.
\<close>

definition chunk_effect :: "editor_state \<Rightarrow> editor_state" where
  "chunk_effect s =
     (let diff = drop (length (prev s)) (completion s)
      in s\<lparr>prev := completion s, editor := map_option (insertContent diff) (editor s)\<rparr>)"

text \<open>
  The effect that attaches the cancellation listeners while \<^verbatim>\<open>isLoading\<close> holds and
  removes them otherwise.
\<close>

definition cancel_effect :: "editor_state \<Rightarrow> editor_state" where
  "cancel_effect s = s\<lparr>cancel_listeners := isLoading s\<rparr>"

text \<open>
  The completion hook returns new values \<^verbatim>\<open>completion\<close> and \<^verbatim>\<open>isLoading\<close>: the
  component renders again and the two effects run, in the order of the source. When
  neither value changed, no effect runs.
\<close>

definition hook_render :: "string \<Rightarrow> bool \<Rightarrow> editor_state \<Rightarrow> editor_state" where
  "hook_render c l s =
     (if c = completion s \<and> l = isLoading s then s
      else cancel_effect (chunk_effect (s\<lparr>completion := c, isLoading := l\<rparr>)))"

text \<open>
  The \<^verbatim>\<open>keydown\<close> listener of the cancellation: on Escape or meta+z it stops the
  request, on Escape it deletes \<^verbatim>\<open>completion.length\<close> characters before the cursor,
  and it inserts the marker.
\<close>

definition cancel_onKeyDown :: "keyboard_event \<Rightarrow> editor_state \<Rightarrow> editor_state option" where
  "cancel_onKeyDown e s =
     (if key e = ''Escape'' \<or> (metaKey e \<and> key e = ''z'')
      then (let s1 = s\<lparr>calls := calls s @ [Stop]\<rparr>
            in case editor s1 of
                 None \<Rightarrow> Some s1
               | Some d \<Rightarrow>
                   (case (if key e = ''Escape''
                          then deleteRange (int (sel_from d) - int (length (completion s)))
                                 (int (sel_from d)) d
                          else Some d) of
                      None \<Rightarrow> None
                    | Some d1 \<Rightarrow> Some (s1\<lparr>editor := Some (insertContent ''++'' d1)\<rparr>)))
      else Some s)"

text \<open>
  The \<^verbatim>\<open>mousedown\<close> listener of the cancellation; the argument is the answer to
  \<^verbatim>\<open>window.confirm\<close>.
\<close>

definition mousedownHandler :: "bool \<Rightarrow> editor_state \<Rightarrow> editor_state" where
  "mousedownHandler confirmed s =
     (let s1 = s\<lparr>calls := calls s @ [PreventDefault, StopPropagation, Stop]\<rparr>
      in if confirmed
         then s1\<lparr>calls := calls s1 @
                [Complete (prompt (data s)
                   (case editor s of
                      None \<Rightarrow> '' ''
                    | Some d \<Rightarrow> if getText d = [] then '' '' else getText d))]\<rparr>
         else s1)"

text \<open>\<^verbatim>\<open>onFinish\<close> of the hook selects the span that ends at the cursor.\<close>

definition onFinish :: "string \<Rightarrow> editor_state \<Rightarrow> editor_state" where
  "onFinish c s =
     s\<lparr>editor := map_option
          (\<lambda>d. setTextSelection (int (sel_from d) - int (length c)) (int (sel_from d)) d)
          (editor s)\<rparr>"

definition onError :: "string \<Rightarrow> editor_state \<Rightarrow> editor_state" where
  "onError msg s =
     s\<lparr>calls := calls s @ [ToastError msg] @
          (if msg = ''You have reached your request limit for the day.''
           then [Track ''Rate Limit Reached''] else [])\<rparr>"

subsection \<open>Hydration\<close>

text \<open>
  The effect on \<^verbatim>\<open>[editor, post, hydrated]\<close>:
  \<^verbatim>\<open>if (editor && post?.content && !hydrated) { setContent(post.content); setHydrated(true) }\<close>.
\<close>

definition hydration_effect :: "editor_state \<Rightarrow> editor_state" where
  "hydration_effect s =
     (case editor s of
        None \<Rightarrow> s
      | Some d \<Rightarrow>
          (case content (post s) of
             None \<Rightarrow> s
           | Some c \<Rightarrow>
               if c \<noteq> [] \<and> \<not> hydrated s
               then s\<lparr>editor := Some (setContent c d), hydrated := True\<rparr>
               else s))"

subsection \<open>The slides\<close>

text \<open>
  \<^verbatim>\<open>updateSlides\<close>. The copy \<^verbatim>\<open>slides.slice()\<close> is a new array at the next free
  address, whatever the action; \<^verbatim>\<open>'add'\<close> builds one more array. The array that
  \<open>slides_ref\<close> names before the call is only read.
\<close>

definition updateSlides :: "string \<Rightarrow> int \<Rightarrow> string \<Rightarrow> editor_state \<Rightarrow> editor_state" where
  "updateSlides action index val s =
     (let old = arrays s (slides_ref s);
          updatedSlides = next_addr s;
          s1 = s\<lparr>arrays := (arrays s)(updatedSlides := js_slice old),
                 next_addr := Suc (next_addr s)\<rparr>
      in if action = ''add''
         then s1\<lparr>arrays := (arrays s1)(next_addr s1 := js_spread old @ [Str val]),
                 next_addr := Suc (next_addr s1),
                 slides_ref := next_addr s1\<rparr>
         else if action = ''update''
         then s1\<lparr>arrays := (arrays s1)(updatedSlides :=
                   js_set_index (arrays s1 updatedSlides) index (Str val)),
                 slides_ref := updatedSlides\<rparr>
         else if action = ''delete''
         then s1\<lparr>arrays := (arrays s1)(updatedSlides :=
                   js_splice (arrays s1 updatedSlides) index 1),
                 slides_ref := updatedSlides\<rparr>
         else s1)"

text \<open>
  The effect on \<^verbatim>\<open>[slides]\<close>:
  \<^verbatim>\<open>setData({ ...data, slides: JSON.stringify([...slides]) })\<close>.
\<close>

definition slides_sync_effect :: "editor_state \<Rightarrow> editor_state" where
  "slides_sync_effect s =
     setData ((data s)\<lparr>slides :=
                Some (JSON_stringify (js_spread (arrays s (slides_ref s))))\<rparr>) s"

text \<open>
  A call of \<^verbatim>\<open>updateSlides\<close> from the user interface. The effect on \<^verbatim>\<open>[slides]\<close> runs
  after it when \<^verbatim>\<open>slides\<close> is another array than before.
\<close>

definition slide_op :: "string \<Rightarrow> int \<Rightarrow> string \<Rightarrow> editor_state \<Rightarrow> editor_state" where
  "slide_op action index val s =
     (let s' = updateSlides action index val s
      in if slides_ref s' \<noteq> slides_ref s then slides_sync_effect s' else s')"

text \<open>The slides as the component holds them.\<close>

definition slides_val :: "editor_state \<Rightarrow> jsval list" where
  "slides_val s = arrays s (slides_ref s)"

subsection \<open>The other handlers, mounting and the events of a session\<close>

text \<open>The two inputs: \<^verbatim>\<open>setData({ ...data, title: e.target.value })\<close> and its twin.\<close>

definition title_onChange :: "string \<Rightarrow> editor_state \<Rightarrow> editor_state" where
  "title_onChange v s = setData ((data s)\<lparr>title := Some v\<rparr>) s"

definition description_onChange :: "string \<Rightarrow> editor_state \<Rightarrow> editor_state" where
  "description_onChange v s = setData ((data s)\<lparr>description := Some v\<rparr>) s"

text \<open>The publish button: the call, and what runs when its promise resolves.\<close>

definition publish_onClick :: "editor_state \<Rightarrow> editor_state" where
  "publish_onClick s =
     s\<lparr>calls := calls s @
          [UpdatePostMetadata (if published (data s) then ''false'' else ''true'')
             (post_id (post s)) ''published'']\<rparr>"

definition publish_resolved :: "editor_state \<Rightarrow> editor_state" where
  "publish_resolved s =
     setData ((data s)\<lparr>published := \<not> published (data s)\<rparr>)
       (s\<lparr>calls := calls s @
            [ToastSuccess (''Successfully '' @
               (if published (data s) then ''unpublished'' else ''published'') @
               '' your post.'')]\<rparr>)"

text \<open>
  The state of the first render: the initial values of the hooks. \<open>parse\<close> stands for
  \<^verbatim>\<open>JSON.parse\<close> on the slides of the post; the editor does not exist yet.
\<close>

definition initial :: "(string \<Rightarrow> jsval list) \<Rightarrow> Post \<Rightarrow> editor_state" where
  "initial parse p =
     \<lparr>post = p, data = p, debouncedData = p, debounce_pending = False, hydrated = False,
      slides_ref = 0,
      arrays = (\<lambda>_. [])(0 := (case slides p of
                                None \<Rightarrow> []
                              | Some t \<Rightarrow> if t = [] then [] else parse t)),
      next_addr = 1, editor = None, completion = [], isLoading = False, prev = [],
      save_listener = False, cancel_listeners = False, calls = []\<rparr>"

text \<open>The effects of the first render, in the order of the source.\<close>

definition mount :: "editor_state \<Rightarrow> editor_state" where
  "mount s =
     slides_sync_effect
       (hydration_effect
          (cancel_effect
             (chunk_effect ((autosave_effect s)\<lparr>save_listener := True\<rparr>))))"

text \<open>
  Teardown: the cleanup of every effect runs, which removes the listeners, and the timer
  of \<^verbatim>\<open>useDebounce\<close> is dropped.
\<close>

definition unmount :: "editor_state \<Rightarrow> editor_state" where
  "unmount s = s\<lparr>save_listener := False, cancel_listeners := False, debounce_pending := False\<rparr>"

text \<open>A \<^verbatim>\<open>keydown\<close> on the document goes to every attached listener.\<close>

definition keydown :: "keyboard_event \<Rightarrow> editor_state \<Rightarrow> editor_state option" where
  "keydown e s =
     (let s1 = (if save_listener s then save_onKeyDown e s else s)
      in if cancel_listeners s then cancel_onKeyDown e s1 else Some s1)"

definition mousedown :: "bool \<Rightarrow> editor_state \<Rightarrow> editor_state" where
  "mousedown confirmed s = (if cancel_listeners s then mousedownHandler confirmed s else s)"

text \<open>The editor instance arrives: the effects that depend on it run.\<close>

definition editor_ready :: "document \<Rightarrow> editor_state \<Rightarrow> editor_state" where
  "editor_ready d s = hydration_effect (cancel_effect (chunk_effect (s\<lparr>editor := Some d\<rparr>)))"

text \<open>The parent passes another \<^verbatim>\<open>post\<close>: the effects that depend on it run.\<close>

definition post_changed :: "Post \<Rightarrow> editor_state \<Rightarrow> editor_state" where
  "post_changed p s = hydration_effect (autosave_effect (s\<lparr>post := p\<rparr>))"

text \<open>The user changes the document in the engine, which then reports the update.\<close>

definition user_input :: "(document \<Rightarrow> string) \<Rightarrow> document \<Rightarrow> editor_state \<Rightarrow> editor_state option" where
  "user_input getMarkdown d s =
     (case editor s of
        None \<Rightarrow> Some s
      | Some _ \<Rightarrow> onUpdate getMarkdown (s\<lparr>editor := Some d\<rparr>))"

datatype event =
    TitleChange string
  | DescriptionChange string
  | UserInput document
  | DocUpdate
  | SlideOp string int string
  | PublishClick
  | PublishResolved
  | DebounceElapsed
  | KeyDown keyboard_event
  | MouseDown bool
  | HookRender string bool
  | Finish string
  | Error string
  | EditorReady document
  | PostChanged Post
  | Unmount

fun step :: "(document \<Rightarrow> string) \<Rightarrow> event \<Rightarrow> editor_state \<Rightarrow> editor_state option" where
  "step md (TitleChange v) s = Some (title_onChange v s)"
| "step md (DescriptionChange v) s = Some (description_onChange v s)"
| "step md (UserInput d) s = user_input md d s"
| "step md DocUpdate s = onUpdate md s"
| "step md (SlideOp action index val) s = Some (slide_op action index val s)"
| "step md PublishClick s = Some (publish_onClick s)"
| "step md PublishResolved s = Some (publish_resolved s)"
| "step md DebounceElapsed s = Some (debounce_elapsed s)"
| "step md (KeyDown e) s = keydown e s"
| "step md (MouseDown confirmed) s = Some (mousedown confirmed s)"
| "step md (HookRender c l) s = Some (hook_render c l s)"
| "step md (Finish c) s = Some (onFinish c s)"
| "step md (Error msg) s = Some (onError msg s)"
| "step md (EditorReady d) s = Some (editor_ready d s)"
| "step md (PostChanged p) s = Some (post_changed p s)"
| "step md Unmount s = Some (unmount s)"

text \<open>A session: the events one after the other; \<open>None\<close> when a handler threw.\<close>

fun run :: "(document \<Rightarrow> string) \<Rightarrow> event list \<Rightarrow> editor_state \<Rightarrow> editor_state option" where
  "run md [] s = Some s"
| "run md (ev # evs) s = (case step md ev s of None \<Rightarrow> None | Some s' \<Rightarrow> run md evs s')"

subsection \<open>Streams, traces and what is observed of them\<close>

text \<open>
  A response that grows: every observed value extends the one before, starting from
  \<open>p\<close>.
\<close>

fun growing :: "string \<Rightarrow> string list \<Rightarrow> bool" where
  "growing p [] = True"
| "growing p (c # cs) = (prefix p c \<and> growing c cs)"

text \<open>
  The renders of one stream: the hook returns the values \<open>cs\<close> one after the other,
  with \<^verbatim>\<open>isLoading\<close> set.
\<close>

definition stream :: "string list \<Rightarrow> event list" where
  "stream cs = map (\<lambda>c. HookRender c True) cs"

text \<open>
  The events after which the effect that inserts the chunks runs: a render with new values
  of the hook, and the arrival of the editor.
\<close>

fun runs_chunk_effect :: "event \<Rightarrow> bool" where
  "runs_chunk_effect (HookRender _ _) = True"
| "runs_chunk_effect (EditorReady _) = True"
| "runs_chunk_effect _ = False"

text \<open>
  The drafts that were handed to \<^verbatim>\<open>updatePost\<close>, in order.
\<close>

fun saves :: "call list \<Rightarrow> Post list" where
  "saves [] = []"
| "saves (UpdatePost d # cs) = d # saves cs"
| "saves (_ # cs) = saves cs"

text \<open>
  The events that change the draft or the document: the two inputs, an edit of the
  document, an update reported by the engine, a slide operation, and the end of a publish
  request.
\<close>

fun draft_mutation :: "event \<Rightarrow> bool" where
  "draft_mutation (TitleChange _) = True"
| "draft_mutation (DescriptionChange _) = True"
| "draft_mutation (UserInput _) = True"
| "draft_mutation DocUpdate = True"
| "draft_mutation (SlideOp _ _ _) = True"
| "draft_mutation PublishResolved = True"
| "draft_mutation _ = False"

text \<open>
  The serialized slides of the draft are the serialization of the array that
  \<^verbatim>\<open>slides\<close> holds.
\<close>

definition slides_synced :: "editor_state \<Rightarrow> bool" where
  "slides_synced s = (slides (data s) = Some (JSON_stringify (js_spread (slides_val s))))"

subsection \<open>Example sessions\<close>

text \<open>
  A post with content and no slides, and the session mounted on it. Then the session after
  the editor arrived (which hydrates the document) and the user replaced the text by
  \<^verbatim>\<open>Hi  there\<close>, with the cursor behind \<^verbatim>\<open>Hi \<close>. Then the first render of a session
  with three slides. Last, the state in which the engine reports that the user typed the
  marker at the cursor, once with no completion active and once while a completion is
  loading.
\<close>

definition example_post :: Post where
  "example_post = \<lparr>post_id = ''p1'', title = Some ''T'', description = None,
     content = Some ''Hello'', slides = Some ''[]'', published = False\<rparr>"

definition mounted_example :: editor_state where
  "mounted_example = mount (initial (\<lambda>_. []) example_post)"

definition idle_example :: editor_state where
  "idle_example =
     (let s1 = editor_ready \<lparr>doc_text = [], sel_from = 0, sel_to = 0\<rparr> mounted_example
      in setData ((data s1)\<lparr>content := Some ''Hi  there''\<rparr>)
           (s1\<lparr>editor := Some \<lparr>doc_text = ''Hi  there'', sel_from = 3, sel_to = 3\<rparr>\<rparr>))"

definition abc_state :: editor_state where
  "abc_state =
     initial (\<lambda>_. [Str ''A'', Str ''B'', Str ''C''])
       (example_post\<lparr>slides := Some (JSON_stringify [Str ''A'', Str ''B'', Str ''C''])\<rparr>)"

definition marker_idle :: editor_state where
  "marker_idle = idle_example\<lparr>editor := Some \<lparr>doc_text = ''Hi ++ there'', sel_from = 5, sel_to = 5\<rparr>\<rparr>"

definition marker_while_loading :: editor_state where
  "marker_while_loading = (hook_render [] True idle_example)
     \<lparr>editor := Some \<lparr>doc_text = ''Hi ++ there'', sel_from = 5, sel_to = 5\<rparr>\<rparr>"

section \<open>Properties\<close>

subsection \<open>Unfolding the handlers and the examples\<close>

lemmas handler_defs =
  title_onChange_def description_onChange_def user_input_def onUpdate_def slide_op_def
  publish_onClick_def publish_resolved_def debounce_elapsed_def keydown_def mousedown_def
  hook_render_def onFinish_def onError_def editor_ready_def post_changed_def unmount_def
  setData_def autosave_effect_def save_onKeyDown_def cancel_onKeyDown_def
  mousedownHandler_def chunk_effect_def cancel_effect_def hydration_effect_def
  updateSlides_def slides_sync_effect_def

lemmas effect_defs =
  slides_sync_effect_def setData_def hydration_effect_def cancel_effect_def chunk_effect_def
  autosave_effect_def

lemmas example_defs =
  example_post_def mounted_example_def idle_example_def abc_state_def marker_idle_def
  marker_while_loading_def initial_def mount_def editor_ready_def Let_def

lemma idle_example_facts:
  "editor idle_example = Some \<lparr>doc_text = ''Hi '' @ '' there'', sel_from = length ''Hi '',
                                sel_to = length ''Hi ''\<rparr>"
  "prev idle_example = []" "completion idle_example = []" "\<not> isLoading idle_example"
  "save_listener idle_example" "calls idle_example = []"
  by (simp_all add: example_defs effect_defs)

lemma mounted_example_facts:
  "post mounted_example = example_post" "data mounted_example = example_post"
  "calls mounted_example = []" "editor mounted_example = None"
  "\<not> hydrated mounted_example"
  by (simp_all add: example_defs effect_defs JSON_stringify_def js_spread_def)

lemma idle_example_reachable:
  "run getText [EditorReady \<lparr>doc_text = [], sel_from = 0, sel_to = 0\<rparr>,
                UserInput \<lparr>doc_text = ''Hi  there'', sel_from = 3, sel_to = 3\<rparr>]
     mounted_example = Some idle_example"
  by (simp add: example_defs effect_defs user_input_def onUpdate_def textBetween_def
      getText_def)


lemma abc_state_facts:
  "slides_val abc_state = [Str ''A'', Str ''B'', Str ''C'']"
  "slides_ref abc_state < next_addr abc_state"
  by (simp_all add: abc_state_def initial_def slides_val_def example_post_def JSON_stringify_def)

subsection \<open>Streaming insertion\<close>

lemma growing_last: "growing p cs \<Longrightarrow> prefix p (last (p # cs))"
  by (induction cs arbitrary: p) (auto intro: prefix_order.trans)

lemma insert_at_cursor:
  "v \<noteq> [] \<Longrightarrow> insertContent v \<lparr>doc_text = a @ b, sel_from = length a, sel_to = length a\<rparr> =
     \<lparr>doc_text = (a @ v) @ b, sel_from = length (a @ v), sel_to = length (a @ v)\<rparr>"
  by (simp add: insertContent_def)

lemma hook_render_stream_step:
  assumes "editor s = Some \<lparr>doc_text = a @ b, sel_from = length a, sel_to = length a\<rparr>"
    and "prev s = p" and "completion s = p" and "prefix p c"
  shows "editor (hook_render c l s) =
           Some \<lparr>doc_text = (a @ drop (length p) c) @ b,
                 sel_from = length (a @ drop (length p) c),
                 sel_to = length (a @ drop (length p) c)\<rparr>
         \<and> prev (hook_render c l s) = c \<and> completion (hook_render c l s) = c
         \<and> calls (hook_render c l s) = calls s
         \<and> save_listener (hook_render c l s) = save_listener s"
proof (cases "c = p")
  case True
  then show ?thesis using assms
    by (simp add: hook_render_def chunk_effect_def cancel_effect_def insertContent_def)
next
  case False
  with assms(4) have "drop (length p) c \<noteq> []"
    by (auto simp: prefix_def)
  then show ?thesis using assms False
    by (simp add: hook_render_def chunk_effect_def cancel_effect_def insert_at_cursor del: append_assoc)
qed

lemma stream_run:
  assumes "editor s = Some \<lparr>doc_text = a @ b, sel_from = length a, sel_to = length a\<rparr>"
    and "prev s = p" and "completion s = p" and "growing p cs"
  shows "\<exists>s'. run md (stream cs) s = Some s' \<and>
           editor s' = Some \<lparr>doc_text = a @ drop (length p) (last (p # cs)) @ b,
                             sel_from = length a + (length (last (p # cs)) - length p),
                             sel_to = length a + (length (last (p # cs)) - length p)\<rparr> \<and>
           prev s' = last (p # cs) \<and> completion s' = last (p # cs) \<and>
           calls s' = calls s \<and> save_listener s' = save_listener s"
  using assms
proof (induction cs arbitrary: s a p)
  case Nil
  then show ?case by (simp add: stream_def)
next
  case (Cons c cs)
  let ?s1 = "hook_render c True s"
  from Cons.prems have pc: "prefix p c" and g: "growing c cs" by simp_all
  note st = hook_render_stream_step[OF Cons.prems(1) Cons.prems(2) Cons.prems(3) pc, of True]
  from st have e1: "editor ?s1 = Some \<lparr>doc_text = (a @ drop (length p) c) @ b,
                 sel_from = length (a @ drop (length p) c),
                 sel_to = length (a @ drop (length p) c)\<rparr>"
    and p1: "prev ?s1 = c" and c1: "completion ?s1 = c" by blast+
  from Cons.IH[OF e1 p1 c1 g] obtain s' where
    r: "run md (stream cs) ?s1 = Some s'" and
    e: "editor s' = Some \<lparr>doc_text = (a @ drop (length p) c) @ drop (length c) (last (c # cs)) @ b,
                             sel_from = length (a @ drop (length p) c) + (length (last (c # cs)) - length c),
                             sel_to = length (a @ drop (length p) c) + (length (last (c # cs)) - length c)\<rparr>" and
    rest: "prev s' = last (c # cs)" "completion s' = last (c # cs)" "calls s' = calls ?s1"
      "save_listener s' = save_listener ?s1"
    by blast
  from growing_last[OF g] obtain r1 where l: "last (c # cs) = c @ r1" by (auto simp: prefix_def)
  from pc obtain r0 where c: "c = p @ r0" by (auto simp: prefix_def)
  have "run md (stream (c # cs)) s = Some s'" using r by (simp add: stream_def)
  moreover have "last (p # c # cs) = last (c # cs)" by simp
  ultimately show ?case using e rest st l c by (simp del: last.simps add: )
qed

lemma stream_keeps_loading:
  "isLoading s \<Longrightarrow> cancel_listeners s \<Longrightarrow> run md (stream cs) s = Some s' \<Longrightarrow>
     isLoading s' \<and> cancel_listeners s'"
proof (induction cs arbitrary: s)
  case Nil
  then show ?case by (simp add: stream_def)
next
  case (Cons c cs)
  have "isLoading (hook_render c True s)" "cancel_listeners (hook_render c True s)"
    using Cons.prems(1,2) by (simp_all add: hook_render_def chunk_effect_def cancel_effect_def)
  moreover have "run md (stream cs) (hook_render c True s) = Some s'"
    using Cons.prems(3) by (simp add: stream_def)
  ultimately show ?case by (rule Cons.IH)
qed

lemma stream_starts_loading:
  assumes "\<not> isLoading s" and "cs \<noteq> []" and "run md (stream cs) s = Some s'"
  shows "isLoading s' \<and> cancel_listeners s'"
proof -
  from assms(2) obtain c cs' where cs: "cs = c # cs'" by (cases cs) auto
  have "isLoading (hook_render c True s)" "cancel_listeners (hook_render c True s)"
    using assms(1) by (simp_all add: hook_render_def chunk_effect_def cancel_effect_def)
  moreover have "run md (stream cs') (hook_render c True s) = Some s'"
    using assms(3) cs by (simp add: stream_def)
  ultimately show ?thesis by (rule stream_keeps_loading)
qed

lemma delete_inserted_span:
  "deleteRange (int (length a)) (int (length a) + int (length c))
     \<lparr>doc_text = a @ c @ b, sel_from = length a + length c, sel_to = length a + length c\<rparr> =
   Some \<lparr>doc_text = a @ b, sel_from = length a, sel_to = length a\<rparr>"
proof -
  have "nat (int (length a) + int (length c)) = length a + length c" by simp
  then show ?thesis by (simp add: deleteRange_def map_pos_def)
qed

text \<open>
  Claim C1. Every run of the chunk effect inserts \<^verbatim>\<open>completion.slice(prev.length)\<close>,
  the part of the response behind the value observed before, and remembers the whole
  response. So for a stream that starts from the empty response and grows, what arrives in
  the document, at the cursor and in one piece, is the final response: no chunk twice and
  no gap.
\<close>

theorem stream_inserts_suffixes:
  assumes "editor s = Some \<lparr>doc_text = a @ b, sel_from = length a, sel_to = length a\<rparr>"
    and "prev s = []" and "completion s = []" and "growing [] cs" and "cs \<noteq> []"
  shows "prev (chunk_effect t) = completion t \<and>
         editor (chunk_effect t) =
           map_option (insertContent (drop (length (prev t)) (completion t))) (editor t) \<and>
         (\<exists>s'. run md (stream cs) s = Some s' \<and>
            editor s' = Some \<lparr>doc_text = a @ last cs @ b,
                               sel_from = length a + length (last cs),
                               sel_to = length a + length (last cs)\<rparr> \<and>
            prev s' = last cs)"
proof -
  from stream_run[OF assms(1-4), of md] assms(5) show ?thesis
    by (auto simp: chunk_effect_def)
qed

theorem stream_inserts_suffixes_witness:
  "growing [] [''Hel'', ''Hello''] \<and>
   (\<exists>s'. run getText (stream [''Hel'', ''Hello'']) idle_example = Some s' \<and>
      editor s' = Some \<lparr>doc_text = ''Hi Hello there'', sel_from = 8, sel_to = 8\<rparr> \<and>
      prev s' = ''Hello'')"
proof -
  have g: "growing [] [''Hel'', ''Hello'']" by simp
  have n: "[''Hel'', ''Hello''] \<noteq> []" by simp
  from stream_inserts_suffixes[OF idle_example_facts(1,2,3) g n, of idle_example getText] g
  show ?thesis by (simp add: eval_nat_numeral)
qed

subsection \<open>The completion trigger\<close>

lemma marker_before_cursor:
  assumes "textBetween d (int (sel_from d) - 2) (int (sel_from d)) = ''++''"
  shows "2 \<le> sel_from d \<and> sel_from d \<le> length (doc_text d) \<and>
         doc_text d = take (sel_from d - 2) (doc_text d) @ ''++'' @ drop (sel_from d) (doc_text d)"
proof -
  let ?n = "sel_from d" and ?t = "doc_text d"
  have len: "length (take (nat (int ?n) - nat (int ?n - 2)) (drop (nat (int ?n - 2)) ?t)) = 2"
    using assms by (simp add: textBetween_def)
  have n2: "2 \<le> ?n"
  proof (rule ccontr)
    assume "\<not> 2 \<le> ?n"
    then have "nat (int ?n) - nat (int ?n - 2) < 2" by simp
    with len show False by simp
  qed
  then have i: "nat (int ?n - 2) = ?n - 2" by simp
  with len n2 have tk: "take 2 (drop (?n - 2) ?t) = ''++''"
    using assms by (simp add: textBetween_def)
  from len i n2 have le: "?n \<le> length ?t" by simp
  have a: "take (?n - 2) ?t @ drop (?n - 2) ?t = ?t" by (rule append_take_drop_id)
  have b: "take 2 (drop (?n - 2) ?t) @ drop 2 (drop (?n - 2) ?t) = drop (?n - 2) ?t"
    by (rule append_take_drop_id)
  have "2 + (?n - 2) = ?n" using n2 by arith
  then have c: "drop 2 (drop (?n - 2) ?t) = drop ?n ?t" by (simp only: drop_drop)
  from b c tk have "drop (?n - 2) ?t = ''++'' @ drop ?n ?t" by simp
  with a have "?t = take (?n - 2) ?t @ ''++'' @ drop ?n ?t" by metis
  then show ?thesis using n2 le by blast
qed




subsection \<open>Slide operations\<close>

lemma updateSlides_add:
  "slides_val (updateSlides ''add'' i v s) = js_spread (slides_val s) @ [Str v]"
  by (simp add: updateSlides_def slides_val_def Let_def)

lemma updateSlides_update:
  "slides_val (updateSlides ''update'' i v s) = js_set_index (slides_val s) i (Str v)"
  by (simp add: updateSlides_def slides_val_def Let_def js_slice_def)

lemma updateSlides_delete:
  "slides_val (updateSlides ''delete'' i v s) = js_splice (slides_val s) i 1"
  by (simp add: updateSlides_def slides_val_def Let_def js_slice_def)

lemma updateSlides_fresh:
  "slides_ref s < next_addr s \<Longrightarrow>
     slides_ref (updateSlides action i v s) < next_addr (updateSlides action i v s) \<and>
     (\<forall>r < next_addr s. arrays (updateSlides action i v s) r = arrays s r) \<and>
     (action \<in> {''add'', ''update'', ''delete''} \<longrightarrow>
        next_addr s \<le> slides_ref (updateSlides action i v s)) \<and>
     (action \<notin> {''add'', ''update'', ''delete''} \<longrightarrow>
        slides_ref (updateSlides action i v s) = slides_ref s) \<and>
     data (updateSlides action i v s) = data s"
  by (simp add: updateSlides_def Let_def)

lemma js_spread_no_hole: "Hole \<notin> set a \<Longrightarrow> js_spread a = a"
  by (induction a) (auto simp: js_spread_def)

lemma js_set_index_in_bounds:
  "0 \<le> i \<Longrightarrow> i < int (length a) \<Longrightarrow> int (length a) < 2 ^ 32 \<Longrightarrow>
     js_set_index a i v = a[nat i := v]"
proof -
  assume "0 \<le> i" and "i < int (length a)" and "int (length a) < 2 ^ 32"
  then have "nat i < length a" and "\<not> (i < 0 \<or> 2 ^ 32 - 1 \<le> i)" by linarith+
  then show ?thesis unfolding js_set_index_def by (simp only: if_False if_True)
qed

lemma js_splice_in_bounds:
  "0 \<le> i \<Longrightarrow> i < int (length a) \<Longrightarrow>
     js_splice a i 1 = take (nat i) a @ drop (Suc (nat i)) a"
  by (simp add: js_splice_def Let_def min_def nat_add_distrib)

text \<open>
  Claim C3, as amended. Deleting at an index at or past the length, and updating at a
  negative index, leave the slides as they are. Updating at an index at or past the length
  extends the slides up to that index, and deleting at a negative index removes the slide
  counted from the end (the first one when the index reaches before the start).
\<close>

theorem oob_slide_index:
  assumes "int (length (slides_val s)) \<le> i" and "j < 0"
  shows "slides_val (updateSlides ''delete'' i v s) = slides_val s \<and>
         slides_val (updateSlides ''update'' j v s) = slides_val s \<and>
         (i < 2 ^ 32 - 1 \<longrightarrow>
            slides_val (updateSlides ''update'' i v s) =
              slides_val s @ replicate (nat i - length (slides_val s)) Hole @ [Str v]) \<and>
         slides_val (updateSlides ''delete'' j v s) =
           take (nat (max (int (length (slides_val s)) + j) 0)) (slides_val s) @
           drop (Suc (nat (max (int (length (slides_val s)) + j) 0))) (slides_val s)"
proof -
  have 1: "js_splice (slides_val s) i 1 = slides_val s"
    using assms(1) by (simp add: js_splice_def Let_def min_def)
  have 2: "js_set_index (slides_val s) j (Str v) = slides_val s"
    using assms(2) by (simp add: js_set_index_def)
  have 3: "i < 2 ^ 32 - 1 \<Longrightarrow> js_set_index (slides_val s) i (Str v) =
      slides_val s @ replicate (nat i - length (slides_val s)) Hole @ [Str v]"
  proof -
    assume "i < 2 ^ 32 - 1"
    with assms(1) have "\<not> nat i < length (slides_val s)" and "\<not> (i < 0 \<or> 2 ^ 32 - 1 \<le> i)"
      by linarith+
    then show ?thesis unfolding js_set_index_def by (simp only: if_False)
  qed
  have 4: "js_splice (slides_val s) j 1 =
           take (nat (max (int (length (slides_val s)) + j) 0)) (slides_val s) @
           drop (Suc (nat (max (int (length (slides_val s)) + j) 0))) (slides_val s)"
  proof (cases "slides_val s = []")
    case True
    then show ?thesis by (simp add: js_splice_def Let_def)
  next
    case False
    then have "0 < length (slides_val s)" by simp
    then show ?thesis using assms(2)
      by (simp add: js_splice_def Let_def min_def max_def nat_add_distrib)
  qed
  show ?thesis using 1 2 3 4
    by (simp add: updateSlides_update updateSlides_delete)
qed

theorem oob_slide_index_witness:
  "int (length (slides_val abc_state)) \<le> 5 \<and> (-1::int) < 0 \<and> (5::int) < 2 ^ 32 - 1 \<and>
   slides_val (updateSlides ''delete'' 5 ''Z'' abc_state) = [Str ''A'', Str ''B'', Str ''C''] \<and>
   slides_val (updateSlides ''update'' (-1) ''Z'' abc_state) = [Str ''A'', Str ''B'', Str ''C''] \<and>
   slides_val (updateSlides ''update'' 5 ''Z'' abc_state) =
     [Str ''A'', Str ''B'', Str ''C'', Hole, Hole, Str ''Z''] \<and>
   slides_val (updateSlides ''delete'' (-1) ''Z'' abc_state) = [Str ''A'', Str ''B'']"
proof -
  have a: "int (length (slides_val abc_state)) \<le> 5" by (simp add: abc_state_facts)
  have b: "(-1::int) < 0" by simp
  from oob_slide_index[OF a b, of "''Z''"] show ?thesis
    by (simp add: abc_state_facts eval_nat_numeral)
qed

text \<open>
  Claim C3 as stated fails: on three slides, deleting at index \<open>-1\<close> removes the last
  slide, and updating at index \<open>3\<close> adds a fourth.
\<close>

theorem oob_slide_index_counterexample:
  "(-1::int) < 0 \<and> int (length (slides_val abc_state)) \<le> 3 \<and>
   slides_val abc_state = [Str ''A'', Str ''B'', Str ''C''] \<and>
   slides_val (updateSlides ''delete'' (-1) [] abc_state) = [Str ''A'', Str ''B''] \<and>
   slides_val (updateSlides ''update'' 3 ''Z'' abc_state) =
     [Str ''A'', Str ''B'', Str ''C'', Str ''Z'']"
  by (simp add: abc_state_facts updateSlides_update updateSlides_delete js_splice_def
      js_set_index_def Let_def)

subsection \<open>Cancelling a stream with Escape\<close>

text \<open>
  As long as nothing but the stream touched the document, the cursor stands directly
  behind the inserted response. Then Escape deletes exactly the inserted characters, puts
  the marker back where the response began, and calls \<^verbatim>\<open>stop\<close>; the render that follows
  with \<^verbatim>\<open>isLoading\<close> off inserts nothing.
\<close>

theorem escape_cancels_stream:
  assumes "editor s = Some \<lparr>doc_text = a @ b, sel_from = length a, sel_to = length a\<rparr>"
    and "prev s = []" and "completion s = []" and "\<not> isLoading s"
    and "growing [] cs" and "cs \<noteq> []"
  shows "\<exists>s1 s2. run md (stream cs) s = Some s1 \<and> isLoading s1 \<and>
           editor s1 = Some \<lparr>doc_text = a @ last cs @ b,
                              sel_from = length a + length (last cs),
                              sel_to = length a + length (last cs)\<rparr> \<and>
           keydown \<lparr>key = ''Escape'', metaKey = m\<rparr> s1 = Some s2 \<and>
           editor s2 = Some \<lparr>doc_text = a @ ''++'' @ b,
                              sel_from = length a + 2, sel_to = length a + 2\<rparr> \<and>
           calls s2 = calls s @ [Stop] \<and>
           editor (hook_render (completion s2) False s2) = editor s2"
proof -
  from stream_run[OF assms(1-3,5), of md] assms(6) obtain s1 where
    r: "run md (stream cs) s = Some s1" and
    e: "editor s1 = Some \<lparr>doc_text = a @ last cs @ b,
                              sel_from = length a + length (last cs),
                              sel_to = length a + length (last cs)\<rparr>" and
    p: "prev s1 = last cs" and c: "completion s1 = last cs" and k: "calls s1 = calls s"
    by auto
  from stream_starts_loading[OF assms(4,6) r] have l: "isLoading s1" "cancel_listeners s1"
    by simp_all
  let ?s2 = "s1\<lparr>calls := calls s @ [Stop],
                editor := Some \<lparr>doc_text = a @ ''++'' @ b,
                              sel_from = length a + 2, sel_to = length a + 2\<rparr>\<rparr>"
  note d = delete_inserted_span[of a "last cs" b]
  have "keydown \<lparr>key = ''Escape'', metaKey = m\<rparr> s1 = Some ?s2"
    using e c k l d
    by (simp add: keydown_def save_onKeyDown_def cancel_onKeyDown_def insertContent_def)
  moreover have "editor (hook_render (completion ?s2) False ?s2) = editor ?s2"
    using p c l by (simp add: hook_render_def chunk_effect_def cancel_effect_def insertContent_def)
  ultimately show ?thesis using r e l by auto
qed

theorem escape_cancels_stream_witness:
  "\<not> isLoading idle_example \<and> growing [] [''Hel'', ''Hello''] \<and>
   (\<exists>s1 s2. run getText (stream [''Hel'', ''Hello'']) idle_example = Some s1 \<and>
      editor s1 = Some \<lparr>doc_text = ''Hi Hello there'', sel_from = 8, sel_to = 8\<rparr> \<and>
      keydown \<lparr>key = ''Escape'', metaKey = False\<rparr> s1 = Some s2 \<and>
      editor s2 = Some \<lparr>doc_text = ''Hi ++ there'', sel_from = 5, sel_to = 5\<rparr> \<and>
      calls s2 = [Stop])"
proof -
  have g: "growing [] [''Hel'', ''Hello'']" by simp
  have n: "[''Hel'', ''Hello''] \<noteq> []" by simp
  from escape_cancels_stream[OF idle_example_facts(1,2,3,4) g n, of getText False] g
    idle_example_facts(4,6)
  show ?thesis by (auto simp: eval_nat_numeral)
qed


subsection \<open>Autosave\<close>

lemma saves_append: "saves (xs @ ys) = saves xs @ saves ys"
  by (induction xs rule: saves.induct) simp_all

lemma step_mutation:
  "draft_mutation ev \<Longrightarrow> step md ev s = Some s' \<Longrightarrow>
     post s' = post s \<and> saves (calls s') = saves (calls s)"
  by (cases ev) (auto simp: handler_defs Let_def saves_append split: option.splits if_splits)

lemma run_mutation:
  "list_all draft_mutation evs \<Longrightarrow> run md evs s = Some s' \<Longrightarrow>
     post s' = post s \<and> saves (calls s') = saves (calls s)"
proof (induction evs arbitrary: s)
  case Nil
  then show ?case by simp
next
  case (Cons ev evs)
  from Cons.prems obtain s1 where s1: "step md ev s = Some s1" and r: "run md evs s1 = Some s'"
    by (auto split: option.splits)
  from Cons.prems(1) s1 have "post s1 = post s \<and> saves (calls s1) = saves (calls s)"
    by (auto dest: step_mutation)
  moreover from Cons.IH[OF _ r] Cons.prems(1)
  have "post s' = post s1 \<and> saves (calls s') = saves (calls s1)" by simp
  ultimately show ?case by simp
qed

lemma onUpdate_total: "\<exists>s'. onUpdate md s = Some s'"
proof (cases "editor s")
  case None
  then show ?thesis by (simp add: onUpdate_def)
next
  case (Some d)
  show ?thesis
  proof (cases "textBetween d (int (sel_from d) - 2) (int (sel_from d)) = ''++''")
    case True
    from marker_before_cursor[OF True]
    have "2 \<le> sel_from d" and "sel_from d \<le> length (doc_text d)" by blast+
    then have "\<exists>d'. deleteRange (int (sel_from d) - 2) (int (sel_from d)) d = Some d'"
      by (simp add: deleteRange_def)
    then show ?thesis using Some by (auto simp: onUpdate_def Let_def)
  next
    case False
    then show ?thesis using Some by (simp add: onUpdate_def Let_def)
  qed
qed

lemma step_mutation_total: "draft_mutation ev \<Longrightarrow> \<exists>s'. step md ev s = Some s'"
  using onUpdate_total
  by (cases ev) (auto simp: user_input_def split: option.splits)

lemma run_mutation_total: "list_all draft_mutation evs \<Longrightarrow> \<exists>s'. run md evs s = Some s'"
proof (induction evs arbitrary: s)
  case Nil
  then show ?case by simp
next
  case (Cons ev evs)
  from Cons.prems have "draft_mutation ev" by simp
  from step_mutation_total[OF this] obtain s1 where "step md ev s = Some s1" by blast
  moreover from Cons.IH Cons.prems obtain s' where "run md evs s1 = Some s'" by auto
  ultimately show ?case by simp
qed

text \<open>
  Claim C5. A sequence of changes to the draft runs to its end without a handler throwing,
  and while the draft is being changed no \<^verbatim>\<open>updatePost\<close> is issued. When the
  debounce timer that these changes started then runs out, there is no call if title,
  description, content and slides of the draft are those of the post, and otherwise exactly
  one call, which carries the draft as it is. With no timer running nothing is issued.
\<close>

theorem autosave_after_debounce:
  assumes "list_all draft_mutation evs"
  shows "\<exists>s'. run md evs s = Some s' \<and>
           post s' = post s \<and> saves (calls s') = saves (calls s) \<and>
           saves (calls (debounce_elapsed s')) = saves (calls s) @
             (if debounce_pending s' \<and>
                 \<not> (title (data s') = title (post s) \<and>
                    description (data s') = description (post s) \<and>
                    content (data s') = content (post s) \<and>
                    slides (data s') = slides (post s))
              then [data s'] else [])"
proof -
  from run_mutation_total[OF assms] obtain s' where r: "run md evs s = Some s'" by blast
  from run_mutation[OF assms r] have k: "post s' = post s" "saves (calls s') = saves (calls s)"
    by simp_all
  then have "saves (calls (debounce_elapsed s')) = saves (calls s) @
             (if debounce_pending s' \<and>
                 \<not> (title (data s') = title (post s) \<and>
                    description (data s') = description (post s) \<and>
                    content (data s') = content (post s) \<and>
                    slides (data s') = slides (post s))
              then [data s'] else [])"
    by (simp add: debounce_elapsed_def autosave_effect_def saves_append)
  with r k show ?thesis by blast
qed

theorem autosave_after_debounce_witness:
  "list_all draft_mutation [TitleChange ''N'', TitleChange ''T''] \<and>
   run getText [TitleChange ''N'', TitleChange ''T''] mounted_example =
     Some (title_onChange ''T'' (title_onChange ''N'' mounted_example)) \<and>
   saves (calls (debounce_elapsed (title_onChange ''T'' (title_onChange ''N'' mounted_example)))) = [] \<and>
   list_all draft_mutation [TitleChange ''N''] \<and>
   run getText [TitleChange ''N''] mounted_example = Some (title_onChange ''N'' mounted_example) \<and>
   saves (calls (debounce_elapsed (title_onChange ''N'' mounted_example))) =
     [(data mounted_example)\<lparr>title := Some ''N''\<rparr>]"
proof -
  let ?s1 = "title_onChange ''N'' mounted_example"
  let ?s2 = "title_onChange ''T'' ?s1"
  have l2: "list_all draft_mutation [TitleChange ''N'', TitleChange ''T'']" by simp
  have l1: "list_all draft_mutation [TitleChange ''N'']" by simp
  have r2: "run getText [TitleChange ''N'', TitleChange ''T''] mounted_example = Some ?s2" by simp
  have r1: "run getText [TitleChange ''N''] mounted_example = Some ?s1" by simp
  note f = mounted_example_facts(1,2)
  have d: "data ?s2 = example_post" "debounce_pending ?s2"
    "data ?s1 = example_post\<lparr>title := Some ''N''\<rparr>" "debounce_pending ?s1"
    using f by (simp_all add: title_onChange_def setData_def example_post_def)
  from autosave_after_debounce[OF l2, of getText mounted_example]
    autosave_after_debounce[OF l1, of getText mounted_example]
    l1 l2 r1 r2 f d mounted_example_facts(3)
  show ?thesis by (auto simp: example_post_def)
qed

text \<open>
  Claim C6. Appending adds the value at the end; updating in bounds replaces the slide at
  the index; deleting in bounds removes it; the scenario of the three slides gives the
  three results. Each of the three operations makes \<^verbatim>\<open>slides\<close> a new array and changes
  no array that existed before.
\<close>

theorem slide_operations:
  assumes "slides_ref s < next_addr s" and "int (length (slides_val s)) < 2 ^ 32"
  shows "slides_val (updateSlides ''add'' i v s) = js_spread (slides_val s) @ [Str v] \<and>
    (Hole \<notin> set (slides_val s) \<longrightarrow>
       slides_val (updateSlides ''add'' i v s) = slides_val s @ [Str v]) \<and>
    (0 \<le> i \<and> i < int (length (slides_val s)) \<longrightarrow>
       slides_val (updateSlides ''update'' i v s) = (slides_val s)[nat i := Str v] \<and>
       slides_val (updateSlides ''delete'' i v s) =
         take (nat i) (slides_val s) @ drop (Suc (nat i)) (slides_val s)) \<and>
    (slides_val s = [Str ''A'', Str ''B'', Str ''C''] \<longrightarrow>
       slides_val (updateSlides ''delete'' 1 [] s) = [Str ''A'', Str ''C''] \<and>
       slides_val (updateSlides ''update'' 0 ''Z'' (updateSlides ''delete'' 1 [] s)) =
         [Str ''Z'', Str ''C''] \<and>
       slides_val (updateSlides ''add'' 0 ''D''
           (updateSlides ''update'' 0 ''Z'' (updateSlides ''delete'' 1 [] s))) =
         [Str ''Z'', Str ''C'', Str ''D'']) \<and>
    (\<forall>action \<in> {''add'', ''update'', ''delete''}.
       slides_ref (updateSlides action i v s) \<noteq> slides_ref s \<and>
       (\<forall>r < next_addr s. arrays (updateSlides action i v s) r = arrays s r))"
proof -
  have scen: "slides_val s = [Str ''A'', Str ''B'', Str ''C''] \<Longrightarrow>
       slides_val (updateSlides ''delete'' 1 [] s) = [Str ''A'', Str ''C''] \<and>
       slides_val (updateSlides ''update'' 0 ''Z'' (updateSlides ''delete'' 1 [] s)) =
         [Str ''Z'', Str ''C''] \<and>
       slides_val (updateSlides ''add'' 0 ''D''
           (updateSlides ''update'' 0 ''Z'' (updateSlides ''delete'' 1 [] s))) =
         [Str ''Z'', Str ''C'', Str ''D'']"
    by (simp add: updateSlides_add updateSlides_update updateSlides_delete
        js_splice_def js_set_index_def js_spread_def Let_def)
  have fresh: "\<forall>action \<in> {''add'', ''update'', ''delete''}.
       slides_ref (updateSlides action i v s) \<noteq> slides_ref s \<and>
       (\<forall>r < next_addr s. arrays (updateSlides action i v s) r = arrays s r)"
  proof
    fix action assume a: "action \<in> {''add'', ''update'', ''delete''}"
    from updateSlides_fresh[OF assms(1), of action i v] a
    have "next_addr s \<le> slides_ref (updateSlides action i v s)"
      and "\<forall>r < next_addr s. arrays (updateSlides action i v s) r = arrays s r"
      by blast+
    with assms(1) show "slides_ref (updateSlides action i v s) \<noteq> slides_ref s \<and>
       (\<forall>r < next_addr s. arrays (updateSlides action i v s) r = arrays s r)"
      by simp
  qed
  show ?thesis
    using scen fresh assms(2)
    by (simp add: updateSlides_add updateSlides_update updateSlides_delete
        js_spread_no_hole js_set_index_in_bounds js_splice_in_bounds)
qed

theorem slide_operations_witness:
  "slides_ref abc_state < next_addr abc_state \<and>
   int (length (slides_val abc_state)) < 2 ^ 32 \<and>
   Hole \<notin> set (slides_val abc_state) \<and> (0::int) \<le> 1 \<and> 1 < int (length (slides_val abc_state)) \<and>
   slides_val (updateSlides ''add'' 1 ''Z'' abc_state) =
     [Str ''A'', Str ''B'', Str ''C'', Str ''Z''] \<and>
   slides_val (updateSlides ''update'' 1 ''Z'' abc_state) = [Str ''A'', Str ''Z'', Str ''C''] \<and>
   slides_val (updateSlides ''delete'' 1 ''Z'' abc_state) = [Str ''A'', Str ''C''] \<and>
   slides_val (updateSlides ''add'' 0 ''D''
       (updateSlides ''update'' 0 ''Z'' (updateSlides ''delete'' 1 [] abc_state))) =
     [Str ''Z'', Str ''C'', Str ''D''] \<and>
   slides_ref (updateSlides ''delete'' 1 ''Z'' abc_state) \<noteq> slides_ref abc_state \<and>
   arrays (updateSlides ''delete'' 1 ''Z'' abc_state) (slides_ref abc_state) =
     [Str ''A'', Str ''B'', Str ''C'']"
proof -
  have a: "int (length (slides_val abc_state)) < 2 ^ 32" by (simp add: abc_state_facts)
  have r: "slides_ref abc_state = 0" "next_addr abc_state = 1"
    "arrays abc_state 0 = [Str ''A'', Str ''B'', Str ''C'']"
    by (simp_all add: abc_state_def initial_def example_post_def JSON_stringify_def)
  from slide_operations[OF abc_state_facts(2) a, of 1 "''Z''"] r show ?thesis
    by (simp add: abc_state_facts js_spread_def)
qed

subsection \<open>The save shortcut\<close>

lemma mount_attaches: "save_listener (mount s)"
  by (simp add: mount_def slides_sync_effect_def setData_def hydration_effect_def
      cancel_effect_def chunk_effect_def autosave_effect_def split: option.splits)

lemma keydown_unmounted: "keydown e (unmount s) = Some (unmount s)"
  by (simp add: unmount_def keydown_def)

lemma keydown_save:
  "save_listener s \<Longrightarrow>
     keydown \<lparr>key = ''s'', metaKey = True\<rparr> s =
       Some (s\<lparr>calls := calls s @ [PreventDefault, UpdatePost (data s)]\<rparr>)"
  by (simp add: keydown_def save_onKeyDown_def cancel_onKeyDown_def Let_def)

lemma step_keeps_save_listener:
  "ev \<noteq> Unmount \<Longrightarrow> step md ev s = Some s' \<Longrightarrow> save_listener s' = save_listener s"
  by (cases ev) (auto simp: handler_defs Let_def split: option.splits if_splits)

lemma run_keeps_save_listener:
  "list_all (\<lambda>ev. ev \<noteq> Unmount) evs \<Longrightarrow> run md evs s = Some s' \<Longrightarrow>
     save_listener s' = save_listener s"
proof (induction evs arbitrary: s)
  case Nil
  then show ?case by simp
next
  case (Cons ev evs)
  from Cons.prems obtain s1 where s1: "step md ev s = Some s1" and r: "run md evs s1 = Some s'"
    by (auto split: option.splits)
  from Cons.prems(1) s1 have "save_listener s1 = save_listener s"
    by (auto dest: step_keeps_save_listener)
  moreover from Cons.IH[OF _ r] Cons.prems(1) have "save_listener s' = save_listener s1"
    by simp
  ultimately show ?case by simp
qed

text \<open>
  Claim C7. The listener is attached by mounting, stays attached through every event of the
  session but teardown, and is removed by teardown, after which a key press does nothing.
  At any point of a mounted session, meta+s prevents the default action and calls
  \<^verbatim>\<open>updatePost\<close> with the draft at once, whatever the state of the debounce timer; nothing
  else changes.
\<close>

theorem save_shortcut:
  "save_listener (mount s0) \<and> \<not> save_listener (unmount s) \<and>
   keydown e (unmount s) = Some (unmount s) \<and>
   (save_listener s \<longrightarrow>
      keydown \<lparr>key = ''s'', metaKey = True\<rparr> s =
        Some (s\<lparr>calls := calls s @ [PreventDefault, UpdatePost (data s)]\<rparr>)) \<and>
   (list_all (\<lambda>ev. ev \<noteq> Unmount) evs \<and> run md evs (mount s0) = Some s' \<longrightarrow>
      save_listener s' \<and>
      keydown \<lparr>key = ''s'', metaKey = True\<rparr> s' =
        Some (s'\<lparr>calls := calls s' @ [PreventDefault, UpdatePost (data s')]\<rparr>)) \<and>
   (save_listener s \<and> list_all (\<lambda>ev. ev \<noteq> Unmount) evs \<and> run md evs s = Some s' \<longrightarrow>
      save_listener s' \<and>
      keydown \<lparr>key = ''s'', metaKey = True\<rparr> s' =
        Some (s'\<lparr>calls := calls s' @ [PreventDefault, UpdatePost (data s')]\<rparr>))"
proof -
  have a: "list_all (\<lambda>ev. ev \<noteq> Unmount) evs \<and> run md evs (mount s0) = Some s' \<longrightarrow>
      save_listener s' \<and>
      keydown \<lparr>key = ''s'', metaKey = True\<rparr> s' =
        Some (s'\<lparr>calls := calls s' @ [PreventDefault, UpdatePost (data s')]\<rparr>)"
    using run_keeps_save_listener[of evs md "mount s0" s'] mount_attaches[of s0]
      keydown_save[of s'] by blast
  have b: "save_listener s \<and> list_all (\<lambda>ev. ev \<noteq> Unmount) evs \<and> run md evs s = Some s' \<longrightarrow>
      save_listener s' \<and>
      keydown \<lparr>key = ''s'', metaKey = True\<rparr> s' =
        Some (s'\<lparr>calls := calls s' @ [PreventDefault, UpdatePost (data s')]\<rparr>)"
    using run_keeps_save_listener[of evs md s s'] keydown_save[of s'] by blast
  have c: "\<not> save_listener (unmount s)" by (simp add: unmount_def)
  from a b c mount_attaches[of s0] keydown_unmounted[of e s] keydown_save[of s]
  show ?thesis by blast
qed

theorem save_shortcut_witness:
  "save_listener idle_example \<and> debounce_pending idle_example \<and>
   keydown \<lparr>key = ''s'', metaKey = True\<rparr> idle_example =
     Some (idle_example\<lparr>calls := [PreventDefault, UpdatePost (data idle_example)]\<rparr>) \<and>
   list_all (\<lambda>ev. ev \<noteq> Unmount)
     [EditorReady \<lparr>doc_text = [], sel_from = 0, sel_to = 0\<rparr>,
      UserInput \<lparr>doc_text = ''Hi  there'', sel_from = 3, sel_to = 3\<rparr>] \<and>
   run getText [EditorReady \<lparr>doc_text = [], sel_from = 0, sel_to = 0\<rparr>,
                UserInput \<lparr>doc_text = ''Hi  there'', sel_from = 3, sel_to = 3\<rparr>]
     (mount (initial (\<lambda>_. []) example_post)) = Some idle_example \<and>
   list_all (\<lambda>ev. ev \<noteq> Unmount) [TitleChange ''N'', HookRender ''abc'' True] \<and>
   run getText [TitleChange ''N'', HookRender ''abc'' True] idle_example =
     Some (hook_render ''abc'' True (title_onChange ''N'' idle_example)) \<and>
   save_listener (hook_render ''abc'' True (title_onChange ''N'' idle_example)) \<and>
   keydown \<lparr>key = ''s'', metaKey = True\<rparr>
       (hook_render ''abc'' True (title_onChange ''N'' idle_example)) =
     Some ((hook_render ''abc'' True (title_onChange ''N'' idle_example))
            \<lparr>calls := calls (hook_render ''abc'' True (title_onChange ''N'' idle_example)) @
               [PreventDefault,
                UpdatePost (data (hook_render ''abc'' True (title_onChange ''N'' idle_example)))]\<rparr>)"
proof -
  let ?ini = "[EditorReady \<lparr>doc_text = [], sel_from = 0, sel_to = 0\<rparr>,
      UserInput \<lparr>doc_text = ''Hi  there'', sel_from = 3, sel_to = 3\<rparr>]"
  let ?evs = "[TitleChange ''N'', HookRender ''abc'' True]"
  let ?s' = "hook_render ''abc'' True (title_onChange ''N'' idle_example)"
  have p: "debounce_pending idle_example" by (simp add: example_defs effect_defs)
  have l0: "list_all (\<lambda>ev. ev \<noteq> Unmount) ?ini" by simp
  have r0: "run getText ?ini (mount (initial (\<lambda>_. []) example_post)) = Some idle_example"
    using idle_example_reachable by (simp add: mounted_example_def)
  have l: "list_all (\<lambda>ev. ev \<noteq> Unmount) ?evs" by simp
  have r: "run getText ?evs idle_example = Some ?s'" by simp
  from save_shortcut[of "initial (\<lambda>_. []) example_post" idle_example
      "\<lparr>key = ''s'', metaKey = True\<rparr>" ?ini getText idle_example] l0 r0
  have i: "save_listener idle_example"
    "keydown \<lparr>key = ''s'', metaKey = True\<rparr> idle_example =
       Some (idle_example\<lparr>calls := calls idle_example @
               [PreventDefault, UpdatePost (data idle_example)]\<rparr>)"
    by blast+
  from save_shortcut[of idle_example idle_example
      "\<lparr>key = ''s'', metaKey = True\<rparr>" ?evs getText ?s'] i(1) l r
  have j: "save_listener ?s'"
    "keydown \<lparr>key = ''s'', metaKey = True\<rparr> ?s' =
       Some (?s'\<lparr>calls := calls ?s' @ [PreventDefault, UpdatePost (data ?s')]\<rparr>)"
    by blast+
  from i(2) idle_example_facts(6)
  have i2: "keydown \<lparr>key = ''s'', metaKey = True\<rparr> idle_example =
     Some (idle_example\<lparr>calls := [PreventDefault, UpdatePost (data idle_example)]\<rparr>)"
    by simp
  from i(1) p i2 l0 r0 l r j show ?thesis by blast
qed

subsection \<open>Hydration\<close>

lemma step_hydrated: "step md ev s = Some s' \<Longrightarrow> hydrated s \<Longrightarrow> hydrated s'"
  by (cases ev) (auto simp: handler_defs Let_def split: option.splits if_splits)

lemma run_hydrated: "run md evs s = Some s' \<Longrightarrow> hydrated s \<Longrightarrow> hydrated s'"
  by (induction evs arbitrary: s) (auto split: option.splits dest: step_hydrated)

lemma hydration_effect_hydrated: "hydrated s \<Longrightarrow> hydration_effect s = s"
  by (simp add: hydration_effect_def split: option.splits)

lemma post_changed_hydrated: "hydrated s \<Longrightarrow> editor (post_changed q s) = editor s"
  by (simp add: post_changed_def hydration_effect_def autosave_effect_def split: option.splits)

lemma hydration_effect_first:
  "editor s = Some d \<Longrightarrow> content (post s) = Some c \<Longrightarrow> c \<noteq> [] \<Longrightarrow> \<not> hydrated s \<Longrightarrow>
     editor (hydration_effect s) = Some (setContent c d) \<and> hydrated (hydration_effect s)"
  by (simp add: hydration_effect_def)

lemma editor_ready_first:
  "content (post s) = Some c \<Longrightarrow> c \<noteq> [] \<Longrightarrow> \<not> hydrated s \<Longrightarrow>
     editor (editor_ready d s) = Some (setContent c d) \<and> hydrated (editor_ready d s)"
  by (simp add: editor_ready_def hydration_effect_def cancel_effect_def chunk_effect_def
      setContent_def)

text \<open>
  Claim C8. With non-empty content in the post and no hydration so far, the document is set
  from the content when the effect first runs with an editor. From then on, whatever
  happens in the session, the flag stays set, the effect changes nothing, and another post
  from outside leaves the document alone.
\<close>

theorem hydration_once:
  assumes "content (post s) = Some c" and "c \<noteq> []" and "\<not> hydrated s"
  shows "(editor s = Some d \<longrightarrow>
            editor (hydration_effect s) = Some (setContent c d) \<and> hydrated (hydration_effect s)) \<and>
         editor (editor_ready d s) = Some (setContent c d) \<and> hydrated (editor_ready d s) \<and>
         (run md evs (editor_ready d s) = Some s' \<longrightarrow>
            hydrated s' \<and> hydration_effect s' = s' \<and> editor (post_changed q s') = editor s')"
proof -
  have "run md evs (editor_ready d s) = Some s' \<Longrightarrow>
          hydrated s' \<and> hydration_effect s' = s' \<and> editor (post_changed q s') = editor s'"
  proof -
    assume r: "run md evs (editor_ready d s) = Some s'"
    from editor_ready_first[OF assms] have "hydrated (editor_ready d s)" by simp
    with r have "hydrated s'" by (rule run_hydrated)
    then show ?thesis by (simp add: hydration_effect_hydrated post_changed_hydrated)
  qed
  then show ?thesis
    using hydration_effect_first[OF _ assms] editor_ready_first[OF assms] by blast
qed

theorem hydration_once_witness:
  "content (post (mount (initial (\<lambda>_. []) example_post))) = Some ''Hello'' \<and>
   \<not> hydrated (mount (initial (\<lambda>_. []) example_post)) \<and>
   editor (hydration_effect ((mount (initial (\<lambda>_. []) example_post))
       \<lparr>editor := Some \<lparr>doc_text = [], sel_from = 0, sel_to = 0\<rparr>\<rparr>)) =
     Some \<lparr>doc_text = ''Hello'', sel_from = 5, sel_to = 5\<rparr> \<and>
   editor (editor_ready \<lparr>doc_text = [], sel_from = 0, sel_to = 0\<rparr>
            (mount (initial (\<lambda>_. []) example_post))) =
     Some \<lparr>doc_text = ''Hello'', sel_from = 5, sel_to = 5\<rparr> \<and>
   run getText [TitleChange ''N'', PostChanged (example_post\<lparr>content := Some ''Other''\<rparr>)]
     (editor_ready \<lparr>doc_text = [], sel_from = 0, sel_to = 0\<rparr>
        (mount (initial (\<lambda>_. []) example_post))) =
     Some (post_changed (example_post\<lparr>content := Some ''Other''\<rparr>)
            (title_onChange ''N''
               (editor_ready \<lparr>doc_text = [], sel_from = 0, sel_to = 0\<rparr>
                  (mount (initial (\<lambda>_. []) example_post))))) \<and>
   editor (post_changed (example_post\<lparr>content := Some ''Other''\<rparr>)
            (title_onChange ''N''
               (editor_ready \<lparr>doc_text = [], sel_from = 0, sel_to = 0\<rparr>
                  (mount (initial (\<lambda>_. []) example_post))))) =
     Some \<lparr>doc_text = ''Hello'', sel_from = 5, sel_to = 5\<rparr>"
  (is "?A \<and> ?B \<and> ?C \<and> ?D \<and> ?E \<and> ?F")
proof -
  let ?s = "mount (initial (\<lambda>_. []) example_post)"
  let ?d = "\<lparr>doc_text = [], sel_from = 0, sel_to = 0\<rparr>"
  let ?q = "example_post\<lparr>content := Some ''Other''\<rparr>"
  let ?t = "?s\<lparr>editor := Some ?d\<rparr>"
  let ?s1 = "title_onChange ''N'' (editor_ready ?d ?s)"
  have a: "content (post ?s) = Some ''Hello''" and n: "''Hello'' \<noteq> []" and h: "\<not> hydrated ?s"
    by (simp_all add: example_defs effect_defs)
  have a': "content (post ?t) = Some ''Hello''" and h': "\<not> hydrated ?t"
    and e': "editor ?t = Some ?d"
    using a h by simp_all
  from hydration_once[where d = ?d and md = getText, OF a' n h'] e'
  have "editor (hydration_effect ?t) = Some (setContent ''Hello'' ?d)" by blast
  then have C: ?C by (simp add: setContent_def eval_nat_numeral)
  note inst = hydration_once[where d = ?d and md = getText, OF a n h]
  from inst have "editor (editor_ready ?d ?s) = Some (setContent ''Hello'' ?d)" by blast
  then have D: ?D by (simp add: setContent_def eval_nat_numeral)
  have E: ?E by simp
  have r1: "run getText [TitleChange ''N''] (editor_ready ?d ?s) = Some ?s1" by simp
  from inst[where evs = "[TitleChange ''N'']" and s' = ?s1 and q = ?q] r1
  have "editor (post_changed ?q ?s1) = editor ?s1" by blast
  also have "editor ?s1 = editor (editor_ready ?d ?s)"
    by (simp add: title_onChange_def setData_def)
  finally have F: ?F using D by simp
  from a h C D E F show ?thesis by blast
qed

subsection \<open>The serialized slides\<close>

lemma step_slides_other:
  "\<forall>a i v. ev \<noteq> SlideOp a i v \<Longrightarrow> step md ev s = Some s' \<Longrightarrow>
     slides (data s') = slides (data s) \<and> slides_ref s' = slides_ref s \<and>
     arrays s' = arrays s \<and> next_addr s' = next_addr s"
  by (cases ev) (auto simp: handler_defs Let_def split: option.splits if_splits)

lemma slide_op_wf:
  "slides_ref s < next_addr s \<Longrightarrow>
     slides_ref (slide_op action i v s) < next_addr (slide_op action i v s)"
  using updateSlides_fresh[of s action i v]
  by (simp add: slide_op_def Let_def slides_sync_effect_def setData_def)

lemma slide_op_synced:
  assumes "slides_ref s < next_addr s"
    and "slides_synced s \<or> action \<in> {''add'', ''update'', ''delete''}"
  shows "slides_synced (slide_op action i v s)"
proof (cases "slides_ref (updateSlides action i v s) = slides_ref s")
  case True
  from updateSlides_fresh[OF assms(1), of action i v] True assms(1)
  have na: "action \<notin> {''add'', ''update'', ''delete''}"
    and ar: "arrays (updateSlides action i v s) (slides_ref s) = arrays s (slides_ref s)"
    and da: "data (updateSlides action i v s) = data s"
    by auto
  with assms(2) have "slides_synced s" by blast
  then show ?thesis using True ar da
    by (simp add: slide_op_def Let_def slides_synced_def slides_val_def)
next
  case False
  then show ?thesis
    by (simp add: slide_op_def Let_def slides_synced_def slides_val_def
        slides_sync_effect_def setData_def)
qed

lemma step_synced:
  assumes "slides_ref s < next_addr s" and "slides_synced s" and "step md ev s = Some s'"
  shows "slides_ref s' < next_addr s' \<and> slides_synced s'"
proof (cases "\<exists>a i v. ev = SlideOp a i v")
  case True
  then obtain a i v where "ev = SlideOp a i v" by blast
  with assms show ?thesis
    using slide_op_wf[of s a i v] slide_op_synced[of s a i v] by auto
next
  case False
  then have "\<forall>a i v. ev \<noteq> SlideOp a i v" by blast
  from step_slides_other[OF this assms(3)] assms(1,2) show ?thesis
    by (simp add: slides_synced_def slides_val_def)
qed

lemma run_synced:
  "slides_ref s < next_addr s \<Longrightarrow> slides_synced s \<Longrightarrow> run md evs s = Some s' \<Longrightarrow>
     slides_ref s' < next_addr s' \<and> slides_synced s'"
proof (induction evs arbitrary: s)
  case Nil
  then show ?case by simp
next
  case (Cons ev evs)
  from Cons.prems(3) obtain s1 where s1: "step md ev s = Some s1" and r: "run md evs s1 = Some s'"
    by (auto split: option.splits)
  from step_synced[OF Cons.prems(1,2) s1] have "slides_ref s1 < next_addr s1" "slides_synced s1"
    by simp_all
  then show ?case using r by (rule Cons.IH)
qed

lemma mount_synced: "slides_synced (mount s)"
  by (simp add: mount_def slides_synced_def slides_val_def slides_sync_effect_def setData_def
      hydration_effect_def cancel_effect_def chunk_effect_def autosave_effect_def
      split: option.splits)

text \<open>
  Claim C9. After an append, an update or a delete of a slide, the slides field of the
  draft is the JSON text of the slides; the same holds after mounting, and no later event
  of a session breaks it.
\<close>

theorem slides_serialized_in_sync:
  assumes "slides_ref s < next_addr s"
  shows "(action \<in> {''add'', ''update'', ''delete''} \<longrightarrow>
            slides_synced (slide_op action index val s)) \<and>
         (slides_synced s \<and> run md evs s = Some s' \<longrightarrow> slides_synced s') \<and>
         slides_synced (mount (initial parse p))"
  using slide_op_synced[OF assms, of action index val] run_synced[OF assms, of md evs s']
    mount_synced[of "initial parse p"]
  by blast

theorem slides_serialized_in_sync_witness:
  "slides_ref abc_state < next_addr abc_state \<and>
   slides (data (slide_op ''delete'' 1 [] abc_state)) =
     Some (JSON_stringify [Str ''A'', Str ''C'']) \<and>
   JSON_stringify [Str ''A'', Str ''C''] =
     [CHR ''['', CHR 0x22, CHR ''A'', CHR 0x22, CHR '','', CHR 0x22, CHR ''C'', CHR 0x22, CHR '']''] \<and>
   slides_synced (slide_op ''delete'' 1 [] abc_state) \<and>
   run getText [TitleChange ''N'', SlideOp ''add'' 0 []] (slide_op ''delete'' 1 [] abc_state) =
     Some (slide_op ''add'' 0 [] (title_onChange ''N'' (slide_op ''delete'' 1 [] abc_state))) \<and>
   slides_synced (slide_op ''add'' 0 [] (title_onChange ''N'' (slide_op ''delete'' 1 [] abc_state)))"
proof -
  let ?s1 = "slide_op ''delete'' 1 [] abc_state"
  let ?s2 = "slide_op ''add'' 0 [] (title_onChange ''N'' ?s1)"
  have m: "''delete'' \<in> {''add'', ''update'', ''delete''}" by simp
  have r: "run getText [TitleChange ''N'', SlideOp ''add'' 0 []] ?s1 = Some ?s2" by simp
  have w1: "slides_ref ?s1 < next_addr ?s1"
    using abc_state_facts(2) by (rule slide_op_wf)
  have v: "slides_val ?s1 = [Str ''A'', Str ''C'']"
    using abc_state_facts
    by (simp add: slide_op_def Let_def slides_sync_effect_def setData_def slides_val_def
        updateSlides_def js_slice_def js_splice_def)
  have j: "JSON_stringify [Str ''A'', Str ''C''] =
     [CHR ''['', CHR 0x22, CHR ''A'', CHR 0x22, CHR '','', CHR 0x22, CHR ''C'', CHR 0x22, CHR '']'']"
    by (simp add: JSON_stringify_def serialize_element_def quote_json_string_def quote_unit_def)
  from slides_serialized_in_sync[OF abc_state_facts(2), of "''delete''" 1 "[]"] m
  have s1: "slides_synced ?s1" by blast
  from slides_serialized_in_sync[OF w1, of _ _ _ getText "[TitleChange ''N'', SlideOp ''add'' 0 []]" ?s2] s1 r
  have s2: "slides_synced ?s2" by blast
  from s1 v have "slides (data ?s1) = Some (JSON_stringify [Str ''A'', Str ''C''])"
    by (simp add: slides_synced_def js_spread_def)
  with abc_state_facts(2) j s1 r s2 show ?thesis by blast
qed

subsection \<open>The remembered response\<close>

lemma step_keeps_prev:
  "\<not> runs_chunk_effect ev \<Longrightarrow> step md ev s = Some s' \<Longrightarrow>
     prev s' = prev s \<and> completion s' = completion s \<and> isLoading s' = isLoading s"
  by (cases ev) (auto simp: handler_defs Let_def split: option.splits if_splits)

lemma run_keeps_prev:
  "list_all (\<lambda>ev. \<not> runs_chunk_effect ev) evs \<Longrightarrow> run md evs s = Some s' \<Longrightarrow>
     prev s' = prev s \<and> completion s' = completion s \<and> isLoading s' = isLoading s"
proof (induction evs arbitrary: s)
  case Nil
  then show ?case by simp
next
  case (Cons ev evs)
  from Cons.prems obtain s1 where s1: "step md ev s = Some s1" and r: "run md evs s1 = Some s'"
    by (auto split: option.splits)
  from Cons.prems(1) s1 have "prev s1 = prev s \<and> completion s1 = completion s \<and> isLoading s1 = isLoading s"
    by (auto dest: step_keeps_prev)
  moreover from Cons.IH[OF _ r] Cons.prems(1)
  have "prev s' = prev s1 \<and> completion s' = completion s1 \<and> isLoading s' = isLoading s1"
    by simp
  ultimately show ?case by simp
qed

text \<open>
  Claim C10. The chunk effect sets the remembered response to the whole current response.
  No handler resets it: the end of a completion, an error, a key or a pointer cancelling
  it leave it as it is. So the next observed response, also of a later completion, is cut
  at the length of the response observed last.
\<close>

theorem prev_never_reset:
  "prev (chunk_effect s) = completion s \<and>
   (list_all (\<lambda>ev. \<not> runs_chunk_effect ev) evs \<and> run md evs s = Some s' \<longrightarrow>
      prev s' = prev s \<and>
      (c \<noteq> completion s' \<or> l \<noteq> isLoading s' \<longrightarrow>
         prev (hook_render c l s') = c \<and>
         editor (hook_render c l s') =
           map_option (insertContent (drop (length (prev s)) c)) (editor s')))"
proof -
  have "prev (chunk_effect s) = completion s" by (simp add: chunk_effect_def)
  moreover
  { assume a: "list_all (\<lambda>ev. \<not> runs_chunk_effect ev) evs" "run md evs s = Some s'"
    from run_keeps_prev[OF a] have k: "prev s' = prev s" by simp
    have "prev s' = prev s \<and>
      (c \<noteq> completion s' \<or> l \<noteq> isLoading s' \<longrightarrow>
         prev (hook_render c l s') = c \<and>
         editor (hook_render c l s') =
           map_option (insertContent (drop (length (prev s)) c)) (editor s'))"
      using k by (auto simp: hook_render_def chunk_effect_def cancel_effect_def) }
  ultimately show ?thesis by blast
qed

theorem prev_never_reset_witness:
  "list_all (\<lambda>ev. \<not> runs_chunk_effect ev)
     [Finish ''abc'', Error ''failed'', MouseDown False] \<and>
   run getText [Finish ''abc'', Error ''failed'', MouseDown False]
     (hook_render ''abc'' True idle_example) =
     Some (mousedown False (onError ''failed'' (onFinish ''abc''
            (hook_render ''abc'' True idle_example)))) \<and>
   prev (mousedown False (onError ''failed'' (onFinish ''abc''
            (hook_render ''abc'' True idle_example)))) = ''abc'' \<and>
   editor (hook_render ''xyzw'' True (mousedown False (onError ''failed'' (onFinish ''abc''
            (hook_render ''abc'' True idle_example))))) =
     map_option (insertContent ''w'') (editor (mousedown False (onError ''failed''
            (onFinish ''abc'' (hook_render ''abc'' True idle_example)))))"
proof -
  let ?s = "hook_render ''abc'' True idle_example"
  let ?s' = "mousedown False (onError ''failed'' (onFinish ''abc'' ?s))"
  have l: "list_all (\<lambda>ev. \<not> runs_chunk_effect ev)
     [Finish ''abc'', Error ''failed'', MouseDown False]" by simp
  have r: "run getText [Finish ''abc'', Error ''failed'', MouseDown False] ?s = Some ?s'"
    by simp
  have p: "prev ?s = ''abc''"
    using idle_example_facts(3,4) by (simp add: hook_render_def chunk_effect_def cancel_effect_def)
  have c: "completion ?s' = ''abc''"
    using idle_example_facts(3,4)
    by (simp add: hook_render_def chunk_effect_def cancel_effect_def mousedown_def
        mousedownHandler_def onError_def onFinish_def Let_def)
  from prev_never_reset[of ?s "[Finish ''abc'', Error ''failed'', MouseDown False]" getText ?s'
      "''xyzw''" True] l r p c
  show ?thesis by simp
qed

end
